theory Spec2Isabelle
  imports Complex_Main "HOL-Library.Char_ord" "HOL-Library.List_Lexorder" "HOL-Library.Multiset"
    "HOL-Library.Log_Nat"
begin

section \<open>Expense tracker: values\<close>

text \<open>
  The program is \<^verbatim>\<open>src/main.py\<close>: three tools (\<^verbatim>\<open>add_expense\<close>,
  \<^verbatim>\<open>list_expenses\<close>, \<^verbatim>\<open>summarize\<close>) over one SQLite table.

  Python strings are modelled as \<^typ>\<open>string\<close> (lists of 8-bit characters, ordered by
  character code, lists ordered lexicographically: the order of SQLite's default BINARY
  collation). On such characters the regular expression class \<^verbatim>\<open>\d\<close> is exactly
  \<^verbatim>\<open>0\<close>..\<^verbatim>\<open>9\<close>.

  A Python \<^verbatim>\<open>float\<close> is an IEEE 754 binary64 number. A finite one is modelled by
  the rational it denotes, and the three special values are kept apart. The sign of zero
  is not modelled. Arithmetic rounds to the nearest binary64 number, ties to the even
  significand, and overflows to an infinity, as the hardware does.
\<close>

datatype pyfloat = Fin rat | PInf | NInf | NaN

instantiation pyfloat :: zero
begin

definition zero_pyfloat :: pyfloat where
  "zero_pyfloat = Fin 0"

instance ..

end

text \<open>Python's \<^verbatim>\<open>a <= b\<close> and \<^verbatim>\<open>a < b\<close> on floats: every comparison with NaN is false.\<close>

fun py_le :: "pyfloat \<Rightarrow> pyfloat \<Rightarrow> bool" where
  "py_le NaN _ = False"
| "py_le _ NaN = False"
| "py_le NInf _ = True"
| "py_le _ PInf = True"
| "py_le (Fin a) (Fin b) = (a \<le> b)"
| "py_le (Fin a) NInf = False"
| "py_le PInf (Fin b) = False"
| "py_le PInf NInf = False"

fun py_lt :: "pyfloat \<Rightarrow> pyfloat \<Rightarrow> bool" where
  "py_lt NaN _ = False"
| "py_lt _ NaN = False"
| "py_lt (Fin a) (Fin b) = (a < b)"
| "py_lt NInf (Fin b) = True"
| "py_lt NInf PInf = True"
| "py_lt (Fin a) PInf = True"
| "py_lt _ NInf = False"
| "py_lt PInf _ = False"

text \<open>Rounding to an integer, a tie going to the even neighbour.\<close>

definition round_half_even :: "rat \<Rightarrow> int" where
  "round_half_even x =
     (let f = \<lfloor>x\<rfloor>; d = x - of_int f in
      if d < 1 / 2 then f else if 1 / 2 < d then f + 1 else if even f then f else f + 1)"

text \<open>
  The binary exponent of a positive rational: the \<open>e\<close> with \<open>2 powi e \<le> a < 2 powi (e + 1)\<close>,
  found from the bit lengths of numerator and denominator.
\<close>

definition ilog2 :: "rat \<Rightarrow> int" where
  "ilog2 a = (case quotient_of a of (p, q) \<Rightarrow>
      let d = bitlen p - bitlen q in if 2 powi d \<le> a then d else d - 1)"

text \<open>
  Rounding a rational to binary64: 53 significant bits, the spacing never below
  \<open>2 powi - 1074\<close> (the subnormal numbers), and a magnitude that rounds to \<open>2 powi 1024\<close>
  or more becomes an infinity.
\<close>

definition fl :: "rat \<Rightarrow> pyfloat" where
  "fl x = (if x = 0 then Fin 0 else
     let a = \<bar>x\<bar>;
         e = ilog2 a;
         q = (if e < - 1022 then - 1074 else e - 52);
         r = of_int (round_half_even (a / 2 powi q)) * 2 powi q
     in if 2 powi 1024 \<le> r then (if x < 0 then NInf else PInf)
        else Fin (if x < 0 then - r else r))"

text \<open>
  Addition, negation, subtraction and absolute value of floats: NaN is absorbing, the two
  infinities add up to NaN, and a finite sum is rounded.
\<close>

fun fadd :: "pyfloat \<Rightarrow> pyfloat \<Rightarrow> pyfloat" where
  "fadd NaN _ = NaN"
| "fadd _ NaN = NaN"
| "fadd (Fin a) (Fin b) = fl (a + b)"
| "fadd (Fin a) PInf = PInf"
| "fadd (Fin a) NInf = NInf"
| "fadd PInf (Fin b) = PInf"
| "fadd NInf (Fin b) = NInf"
| "fadd PInf PInf = PInf"
| "fadd NInf NInf = NInf"
| "fadd PInf NInf = NaN"
| "fadd NInf PInf = NaN"

fun fneg :: "pyfloat \<Rightarrow> pyfloat" where
  "fneg (Fin a) = Fin (- a)"
| "fneg PInf = NInf"
| "fneg NInf = PInf"
| "fneg NaN = NaN"

definition fsub :: "pyfloat \<Rightarrow> pyfloat \<Rightarrow> pyfloat" where
  "fsub a b = fadd a (fneg b)"

fun fabs :: "pyfloat \<Rightarrow> pyfloat" where
  "fabs (Fin a) = Fin \<bar>a\<bar>"
| "fabs PInf = PInf"
| "fabs NInf = PInf"
| "fabs NaN = NaN"

section \<open>The date validator\<close>

text \<open>
  \<^verbatim>\<open>validate_date\<close> (lines 35-41) calls \<^verbatim>\<open>datetime.strptime(date_str, "%Y-%m-%d")\<close>
  and maps \<^verbatim>\<open>ValueError\<close> to the error message. The standard library's
  \<^verbatim>\<open>_strptime\<close> turns the format into the regular expression

  \<^verbatim>\<open>(?P<Y>\d\d\d\d)-(?P<m>1[0-2]|0[1-9]|[1-9])-(?P<d>3[0-1]|[1-2]\d|0[1-9]|[1-9]| [1-9])\<close>

  matches it at the start of the string (alternatives tried left to right, with
  backtracking), raises \<^verbatim>\<open>ValueError\<close> when there is no match or when data remains
  after the match, converts the groups with \<^verbatim>\<open>int\<close> and builds a
  \<^verbatim>\<open>datetime.date\<close>, which raises \<^verbatim>\<open>ValueError\<close> for a year below 1 or a day
  the month does not have. Each group below returns its candidate matches in the order
  the regular expression engine tries them: the value and the rest of the input.
\<close>

definition is_digit :: "char \<Rightarrow> bool" where
  "is_digit c = (CHR ''0'' \<le> c \<and> c \<le> CHR ''9'')"

definition in_range :: "char \<Rightarrow> char \<Rightarrow> char \<Rightarrow> bool" where
  "in_range lo hi c = (lo \<le> c \<and> c \<le> hi)"

definition digit_val :: "char \<Rightarrow> nat" where
  "digit_val c = of_char c - 48"

definition grp_Y :: "string \<Rightarrow> (nat \<times> string) list" where
  "grp_Y s = (case s of
      a # b # c # d # r \<Rightarrow>
        if is_digit a \<and> is_digit b \<and> is_digit c \<and> is_digit d
        then [(1000 * digit_val a + 100 * digit_val b + 10 * digit_val c + digit_val d, r)]
        else []
    | _ \<Rightarrow> [])"

definition lit :: "char \<Rightarrow> string \<Rightarrow> string list" where
  "lit x s = (case s of c # r \<Rightarrow> if c = x then [r] else [] | [] \<Rightarrow> [])"

definition two :: "char \<Rightarrow> char \<Rightarrow> char \<Rightarrow> char \<Rightarrow> string \<Rightarrow> (nat \<times> string) list" where
  \<comment> \<open>one alternative of two characters: the first in \<open>[lo1-hi1]\<close>, the second in \<open>[lo2-hi2]\<close>;
      \<open>int\<close> ignores a leading blank\<close>
  "two lo1 hi1 lo2 hi2 s = (case s of
      a # b # r \<Rightarrow>
        if in_range lo1 hi1 a \<and> in_range lo2 hi2 b
        then [((if a = CHR '' '' then 0 else 10 * digit_val a) + digit_val b, r)]
        else []
    | _ \<Rightarrow> [])"

definition one :: "char \<Rightarrow> char \<Rightarrow> string \<Rightarrow> (nat \<times> string) list" where
  "one lo hi s = (case s of
      a # r \<Rightarrow> if in_range lo hi a then [(digit_val a, r)] else []
    | _ \<Rightarrow> [])"

definition grp_m :: "string \<Rightarrow> (nat \<times> string) list" where
  "grp_m s = two CHR ''1'' CHR ''1'' CHR ''0'' CHR ''2'' s
           @ two CHR ''0'' CHR ''0'' CHR ''1'' CHR ''9'' s
           @ one CHR ''1'' CHR ''9'' s"

definition grp_d :: "string \<Rightarrow> (nat \<times> string) list" where
  "grp_d s = two CHR ''3'' CHR ''3'' CHR ''0'' CHR ''1'' s
           @ two CHR ''1'' CHR ''2'' CHR ''0'' CHR ''9'' s
           @ two CHR ''0'' CHR ''0'' CHR ''1'' CHR ''9'' s
           @ one CHR ''1'' CHR ''9'' s
           @ two CHR '' '' CHR '' '' CHR ''1'' CHR ''9'' s"

definition candidates :: "string \<Rightarrow> (nat \<times> nat \<times> nat \<times> string) list" where
  "candidates s =
     concat (map (\<lambda>(y, r1).
       concat (map (\<lambda>r2.
         concat (map (\<lambda>(m, r3).
           concat (map (\<lambda>r4.
             map (\<lambda>(d, r5). (y, m, d, r5)) (grp_d r4))
           (lit CHR ''-'' r3)))
         (grp_m r2)))
       (lit CHR ''-'' r1)))
     (grp_Y s))"

definition re_match :: "string \<Rightarrow> (nat \<times> nat \<times> nat \<times> string) option" where
  "re_match s = (case candidates s of [] \<Rightarrow> None | c # _ \<Rightarrow> Some c)"

definition is_leap :: "nat \<Rightarrow> bool" where
  "is_leap y = (y mod 4 = 0 \<and> (y mod 100 \<noteq> 0 \<or> y mod 400 = 0))"

definition days_in_month :: "nat \<Rightarrow> nat \<Rightarrow> nat" where
  "days_in_month y m =
     (if m = 2 then (if is_leap y then 29 else 28)
      else if m = 4 \<or> m = 6 \<or> m = 9 \<or> m = 11 then 30 else 31)"

definition date_ok :: "nat \<Rightarrow> nat \<Rightarrow> nat \<Rightarrow> bool" where
  "date_ok y m d = (1 \<le> y \<and> y \<le> 9999 \<and> 1 \<le> m \<and> m \<le> 12 \<and> 1 \<le> d \<and> d \<le> days_in_month y m)"

text \<open>\<open>None\<close> stands for the \<^verbatim>\<open>ValueError\<close> that \<^verbatim>\<open>strptime\<close> raises.\<close>

definition strptime :: "string \<Rightarrow> (nat \<times> nat \<times> nat) option" where
  "strptime s = (case re_match s of
      None \<Rightarrow> None
    | Some (y, m, d, rest) \<Rightarrow>
        if rest \<noteq> [] then None
        else if date_ok y m d then Some (y, m, d) else None)"

definition date_format_msg :: string where
  "date_format_msg = ''Date must be in YYYY-MM-DD format (e.g., 2024-01-15)''"

definition validate_date :: "string \<Rightarrow> bool \<times> string" where
  "validate_date date_str = (case strptime date_str of
      Some _ \<Rightarrow> (True, '''')
    | None \<Rightarrow> (False, date_format_msg))"

section \<open>The ledger store\<close>

text \<open>
  One row of the table created by \<^verbatim>\<open>init_db\<close> (lines 17-29); the fields are the
  columns \<^verbatim>\<open>id, date, amount, category, subcategory, note\<close>, in the order
  \<^verbatim>\<open>list_expenses\<close> selects them. \<open>None\<close> is SQL \<^verbatim>\<open>NULL\<close> / Python
  \<^verbatim>\<open>None\<close>.
\<close>

record expense =
  exp_id :: nat
  exp_date :: string
  exp_amount :: pyfloat
  exp_category :: string
  exp_subcategory :: "string option"
  exp_note :: "string option"

text \<open>
  The database: the rows in insertion order, and the counter that
  \<^verbatim>\<open>AUTOINCREMENT\<close> keeps (the largest id ever assigned).
\<close>

record store =
  expenses :: "expense list"
  seqno :: nat

definition init_db :: store where
  "init_db = \<lparr>expenses = [], seqno = 0\<rparr>"

definition next_rowid :: "store \<Rightarrow> nat" where
  "next_rowid st = Suc (max (seqno st) (foldr max (map exp_id (expenses st)) 0))"

text \<open>
  The \<^verbatim>\<open>INSERT\<close> of \<^verbatim>\<open>add_expense\<close> (lines 84-88) and its commit. SQLite binds a
  NaN as \<^verbatim>\<open>NULL\<close>, and the column is \<^verbatim>\<open>amount REAL NOT NULL\<close>: the statement
  then fails with \<^verbatim>\<open>IntegrityError\<close> (\<open>Inl\<close>, carrying \<^verbatim>\<open>str(e)\<close>) and nothing is
  written. Failures of the storage medium itself are not modelled.
\<close>

definition db_insert ::
  "string \<Rightarrow> pyfloat \<Rightarrow> string \<Rightarrow> string option \<Rightarrow> string option \<Rightarrow> store \<Rightarrow> string + (nat \<times> store)"
where
  "db_insert date amount category subcategory note st =
     (if amount = NaN then Inl ''NOT NULL constraint failed: expenses.amount''
      else let i = next_rowid st in
        Inr (i, \<lparr>expenses = expenses st @
                    [\<lparr>exp_id = i, exp_date = date, exp_amount = amount, exp_category = category,
                      exp_subcategory = subcategory, exp_note = note\<rparr>],
                 seqno = i\<rparr>))"

text \<open>
  \<^verbatim>\<open>ORDER BY ... DESC\<close>: an insertion sort, \<open>ahead x y\<close> saying that \<open>x\<close> may stand
  in front of \<open>y\<close>. SQL leaves the order among equal keys open; this sort keeps them in
  the order of its input.
\<close>

fun insert_by :: "('a \<Rightarrow> 'a \<Rightarrow> bool) \<Rightarrow> 'a \<Rightarrow> 'a list \<Rightarrow> 'a list" where
  "insert_by ahead x [] = [x]"
| "insert_by ahead x (y # ys) =
     (if ahead x y then x # y # ys else y # insert_by ahead x ys)"

fun order_by :: "('a \<Rightarrow> 'a \<Rightarrow> bool) \<Rightarrow> 'a list \<Rightarrow> 'a list" where
  "order_by ahead [] = []"
| "order_by ahead (x # xs) = insert_by ahead x (order_by ahead xs)"

text \<open>\<^verbatim>\<open>WHERE date BETWEEN ? AND ?\<close>: both comparisons on text, inclusive.\<close>

definition between :: "string \<Rightarrow> string \<Rightarrow> string \<Rightarrow> bool" where
  "between x lo hi = (lo \<le> x \<and> x \<le> hi)"

definition query_range :: "string \<Rightarrow> string \<Rightarrow> store \<Rightarrow> expense list" where
  "query_range start_date end_date st =
     order_by (\<lambda>a b. exp_date b \<le> exp_date a)
       (filter (\<lambda>r. between (exp_date r) start_date end_date) (expenses st))"

text \<open>
  One row of the aggregate query of \<^verbatim>\<open>summarize\<close> (lines 166-177): the columns
  \<^verbatim>\<open>category, total_amount, count\<close>. A \<^verbatim>\<open>NULL\<close> total is read by Python as
  \<^verbatim>\<open>None\<close>.
\<close>

record group_row =
  grp_category :: string
  total_amount :: "pyfloat option"
  grp_count :: nat

text \<open>
  SQLite's \<^verbatim>\<open>SUM\<close> over \<^verbatim>\<open>REAL\<close> values is a compensated summation
  (Kahan, Babuska, Neumaier): a running sum \<^verbatim>\<open>rSum\<close> and an error term \<^verbatim>\<open>rErr\<close>,
  both starting at 0. For each value \<^verbatim>\<open>r\<close>, with \<^verbatim>\<open>s = rSum\<close> and \<^verbatim>\<open>t = s + r\<close>,
  the error term grows by \<^verbatim>\<open>(s - t) + r\<close> when \<^verbatim>\<open>fabs(s) > fabs(r)\<close> and by
  \<^verbatim>\<open>(r - t) + s\<close> otherwise, and \<^verbatim>\<open>rSum\<close> becomes \<^verbatim>\<open>t\<close>. The result is
  \<^verbatim>\<open>rSum + rErr\<close>, or \<^verbatim>\<open>rSum\<close> alone when the error term is infinite or NaN. A
  result that is NaN is returned as \<^verbatim>\<open>NULL\<close>, and so is the sum of no rows. The rows
  of a group are summed in the order of the table.
\<close>

fun is_overflow :: "pyfloat \<Rightarrow> bool" where
  "is_overflow (Fin a) = False"
| "is_overflow _ = True"

fun kbn_step :: "pyfloat \<times> pyfloat \<Rightarrow> pyfloat \<Rightarrow> pyfloat \<times> pyfloat" where
  "kbn_step (s, err) r =
     (let t = fadd s r in
      (t, fadd err (if py_lt (fabs r) (fabs s) then fadd (fsub s t) r
                    else fadd (fsub r t) s)))"

definition sql_sum :: "pyfloat list \<Rightarrow> pyfloat option" where
  "sql_sum xs = (if xs = [] then None else
     case foldl kbn_step (Fin 0, Fin 0) xs of (rSum, rErr) \<Rightarrow>
       let res = (if is_overflow rErr then rSum else fadd rSum rErr)
       in if res = NaN then None else Some res)"

text \<open>SQLite's order of values: \<^verbatim>\<open>NULL\<close> below every number.\<close>

fun sql_le :: "pyfloat option \<Rightarrow> pyfloat option \<Rightarrow> bool" where
  "sql_le None _ = True"
| "sql_le (Some a) None = False"
| "sql_le (Some a) (Some b) = py_le a b"

text \<open>
  \<open>has_filter\<close> is the Python test \<^verbatim>\<open>if category:\<close> (line 173): false for
  \<^verbatim>\<open>None\<close> and for the empty string.
\<close>

definition has_filter :: "string option \<Rightarrow> bool" where
  "has_filter category = (case category of None \<Rightarrow> False | Some c \<Rightarrow> c \<noteq> [])"

definition selected :: "string option \<Rightarrow> expense \<Rightarrow> bool" where
  "selected category r = (if has_filter category then exp_category r = the category else True)"

definition matching :: "string \<Rightarrow> string \<Rightarrow> string option \<Rightarrow> store \<Rightarrow> expense list" where
  "matching start_date end_date category st =
     filter (\<lambda>r. between (exp_date r) start_date end_date \<and> selected category r) (expenses st)"

definition group_of :: "string \<Rightarrow> expense list \<Rightarrow> group_row" where
  "group_of c rs =
     \<lparr>grp_category = c,
      total_amount = sql_sum (map exp_amount (filter (\<lambda>r. exp_category r = c) rs)),
      grp_count = length (filter (\<lambda>r. exp_category r = c) rs)\<rparr>"

text \<open>
  The aggregate query: one row per category among the matching rows, ordered by total,
  descending. SQL leaves the order among equal totals open; SQLite returns them by
  category, descending, which is the order the groups have here before the stable sort.
\<close>

definition aggregate_range :: "string \<Rightarrow> string \<Rightarrow> string option \<Rightarrow> store \<Rightarrow> group_row list" where
  "aggregate_range start_date end_date category st =
     (let rs = matching start_date end_date category st in
      order_by (\<lambda>a b. sql_le (total_amount b) (total_amount a))
        (map (\<lambda>c. group_of c rs) (rev (sort (remdups (map exp_category rs))))))"

section \<open>The three tools\<close>

text \<open>The dictionaries the tools return, by shape.\<close>

datatype result =
    Error string
  | Added nat string
  | Listed nat "expense list"
  | Summary string pyfloat "group_row list"

fun status :: "result \<Rightarrow> string" where
  "status (Error m) = ''error''"
| "status (Added i m) = ''success''"
| "status (Listed n es) = ''success''"
| "status (Summary p t s) = ''success''"

definition valid_categories :: "string list" where
  "valid_categories = [''Food'', ''Travel'', ''Transport'', ''Shopping'', ''Bills'',
                       ''Healthcare'', ''Education'', ''Business'', ''Other'']"

fun join :: "string \<Rightarrow> string list \<Rightarrow> string" where
  "join sep [] = []"
| "join sep [x] = x"
| "join sep (x # y # ys) = x @ sep @ join sep (y # ys)"

text \<open>
  The format \<^verbatim>\<open>{amount:.2f}\<close>: the value rounded to hundredths (a tie goes to the even
  neighbour), the integer part in decimal, a point and two digits; the special values
  print as words.
\<close>

definition digit_char :: "nat \<Rightarrow> char" where
  "digit_char n = char_of (48 + n)"

fun dec :: "nat \<Rightarrow> string" where
  "dec n = (if n < 10 then [digit_char n] else dec (n div 10) @ [digit_char (n mod 10)])"

declare dec.simps [simp del]

definition format_2f :: "pyfloat \<Rightarrow> string" where
  "format_2f a = (case a of
      Fin r \<Rightarrow>
        (let q = nat (round_half_even (\<bar>r\<bar> * 100)) in
         (if r < 0 then ''-'' else []) @ dec (q div 100) @ ''.''
           @ [digit_char (q div 10 mod 10), digit_char (q mod 10)])
    | PInf \<Rightarrow> ''inf''
    | NInf \<Rightarrow> ''-inf''
    | NaN \<Rightarrow> ''nan'')"

definition amount_msg :: string where
  "amount_msg = ''Amount must be a positive number''"

definition category_msg :: string where
  "category_msg = ''Invalid category. Must be one of: '' @ join '', '' valid_categories"

definition add_expense ::
  "string \<Rightarrow> pyfloat \<Rightarrow> string \<Rightarrow> string option \<Rightarrow> string option \<Rightarrow> store \<Rightarrow> result \<times> store"
where
  "add_expense date amount category subcategory note st =
     (case validate_date date of (is_valid, error_msg) \<Rightarrow>
      if \<not> is_valid then (Error error_msg, st)
      else if py_le amount 0 then (Error amount_msg, st)
      else if category \<notin> set valid_categories then (Error category_msg, st)
      else (case db_insert date amount category subcategory note st of
              Inl e \<Rightarrow> (Error (''Database error: '' @ e), st)
            | Inr (lastrowid, st') \<Rightarrow>
                (Added lastrowid
                   (''Added expense: '' @ category @ '' - $'' @ format_2f amount @ '' on '' @ date),
                 st')))"

definition list_expenses :: "string \<Rightarrow> string \<Rightarrow> store \<Rightarrow> result" where
  "list_expenses start_date end_date st =
     (case validate_date start_date of (is_valid, error_msg) \<Rightarrow>
      if \<not> is_valid then Error (''Invalid start_date: '' @ error_msg)
      else (case validate_date end_date of (is_valid, error_msg) \<Rightarrow>
        if \<not> is_valid then Error (''Invalid end_date: '' @ error_msg)
        else (let es = query_range start_date end_date st in Listed (length es) es)))"

text \<open>
  Python's \<^verbatim>\<open>sum\<close> over the column \<^verbatim>\<open>total_amount\<close> (line 185): it starts from the
  integer 0 and adds from the left; adding \<^verbatim>\<open>None\<close> raises \<^verbatim>\<open>TypeError\<close> (\<open>Inl\<close>,
  carrying its text, which names the type of the sum so far).
\<close>

definition quoted :: "string \<Rightarrow> string" where
  "quoted s = [CHR 0x27] @ s @ [CHR 0x27]"

fun py_sum_from :: "string \<Rightarrow> pyfloat \<Rightarrow> pyfloat option list \<Rightarrow> string + pyfloat" where
  "py_sum_from ty acc [] = Inr acc"
| "py_sum_from ty acc (None # xs) =
     Inl (''unsupported operand type(s) for +: '' @ quoted ty @ '' and '' @ quoted ''NoneType'')"
| "py_sum_from ty acc (Some x # xs) = py_sum_from ''float'' (fadd acc x) xs"

definition py_sum :: "pyfloat option list \<Rightarrow> string + pyfloat" where
  "py_sum xs = py_sum_from ''int'' 0 xs"

definition summarize :: "string \<Rightarrow> string \<Rightarrow> string option \<Rightarrow> store \<Rightarrow> result" where
  "summarize start_date end_date category st =
     (case validate_date start_date of (is_valid, error_msg) \<Rightarrow>
      if \<not> is_valid then Error (''Invalid start_date: '' @ error_msg)
      else (case validate_date end_date of (is_valid, error_msg) \<Rightarrow>
        if \<not> is_valid then Error (''Invalid end_date: '' @ error_msg)
        else (let summary = aggregate_range start_date end_date category st in
              case py_sum (map total_amount summary) of
                Inl e \<Rightarrow> Error (''Database error: '' @ e)
              | Inr grand_total \<Rightarrow> Summary (start_date @ '' to '' @ end_date) grand_total summary)))"

text \<open>The calls a client can make, and the states they lead to from the empty table.\<close>

datatype call =
    AddExpense string pyfloat string "string option" "string option"
  | ListExpenses string string
  | Summarize string string "string option"

fun step :: "call \<Rightarrow> store \<Rightarrow> result \<times> store" where
  "step (AddExpense d a c sc n) st = add_expense d a c sc n st"
| "step (ListExpenses s e) st = (list_expenses s e st, st)"
| "step (Summarize s e c) st = (summarize s e c st, st)"

inductive reachable :: "store \<Rightarrow> bool" where
  reachable_init: "reachable init_db"
| reachable_step: "reachable st \<Longrightarrow> reachable (snd (step c st))"

text \<open>The invariant of the data model: a positive amount and one of the nine categories.\<close>

definition row_ok :: "expense \<Rightarrow> bool" where
  "row_ok r = (py_lt 0 (exp_amount r) \<and> exp_category r \<in> set valid_categories)"

definition store_ok :: "store \<Rightarrow> bool" where
  "store_ok st = list_all row_ok (expenses st)"

text \<open>
  The table of the examples below: three expenses added to the empty table.
\<close>

definition ledger3 :: store where
  "ledger3 =
     snd (add_expense ''2024-01-05'' (Fin 5) ''Food'' None None
       (snd (add_expense ''2024-01-20'' (Fin 20) ''Travel'' None None
         (snd (add_expense ''2024-01-10'' (Fin 10) ''Food'' None None init_db)))))"






section \<open>Basic facts about the validators and the tools\<close>

lemmas date_eval = validate_date_def strptime_def re_match_def candidates_def grp_Y_def
  grp_m_def grp_d_def lit_def two_def one_def is_digit_def in_range_def digit_val_def
  date_ok_def days_in_month_def is_leap_def

lemma validate_date_cases:
  "validate_date s = (True, []) \<or> validate_date s = (False, date_format_msg)"
  by (simp add: validate_date_def split: option.splits)

lemma py_lt_zero_iff: "py_lt 0 a \<longleftrightarrow> (\<not> py_le a 0 \<and> a \<noteq> NaN)"
  by (cases a) (auto simp: zero_pyfloat_def)

lemma add_expense_date_error:
  "\<not> fst (validate_date d) \<Longrightarrow> add_expense d a c sc n st = (Error date_format_msg, st)"
  using validate_date_cases [of d] by (auto simp: add_expense_def)

lemma add_expense_amount_error:
  "fst (validate_date d) \<Longrightarrow> py_le a 0 \<Longrightarrow> add_expense d a c sc n st = (Error amount_msg, st)"
  by (auto simp: add_expense_def split: prod.splits)

lemma add_expense_category_error:
  "fst (validate_date d) \<Longrightarrow> \<not> py_le a 0 \<Longrightarrow> c \<notin> set valid_categories \<Longrightarrow>
   add_expense d a c sc n st = (Error category_msg, st)"
  by (auto simp: add_expense_def split: prod.splits)

lemma add_expense_nan:
  "fst (validate_date d) \<Longrightarrow> c \<in> set valid_categories \<Longrightarrow>
   add_expense d NaN c sc n st =
     (Error ''Database error: NOT NULL constraint failed: expenses.amount'', st)"
  by (auto simp: add_expense_def db_insert_def split: prod.splits)

lemma add_expense_insert:
  "fst (validate_date d) \<Longrightarrow> py_lt 0 a \<Longrightarrow> c \<in> set valid_categories \<Longrightarrow>
   add_expense d a c sc n st =
     (Added (next_rowid st) (''Added expense: '' @ c @ '' - $'' @ format_2f a @ '' on '' @ d),
      \<lparr>expenses = expenses st @
         [\<lparr>exp_id = next_rowid st, exp_date = d, exp_amount = a, exp_category = c,
           exp_subcategory = sc, exp_note = n\<rparr>],
       seqno = next_rowid st\<rparr>)"
  by (auto simp: add_expense_def db_insert_def py_lt_zero_iff Let_def split: prod.splits)

text \<open>A call of \<^verbatim>\<open>add_expense\<close> leaves the table as it was or appends one validated row.\<close>

lemma add_expense_store:
  "snd (add_expense d a c sc n st) = st \<or>
   (py_lt 0 a \<and> c \<in> set valid_categories \<and> fst (validate_date d) \<and>
    snd (add_expense d a c sc n st) =
      \<lparr>expenses = expenses st @
         [\<lparr>exp_id = next_rowid st, exp_date = d, exp_amount = a, exp_category = c,
           exp_subcategory = sc, exp_note = n\<rparr>],
       seqno = next_rowid st\<rparr>)"
proof (cases "fst (validate_date d)")
  case False
  then show ?thesis by (simp add: add_expense_date_error)
next
  case valid: True
  show ?thesis
  proof (cases "py_le a 0")
    case True
    with valid show ?thesis by (simp add: add_expense_amount_error)
  next
    case pos: False
    show ?thesis
    proof (cases "c \<in> set valid_categories")
      case False
      with valid pos show ?thesis by (simp add: add_expense_category_error)
    next
      case cat: True
      show ?thesis
      proof (cases "a = NaN")
        case True
        with valid cat show ?thesis by (simp add: add_expense_nan)
      next
        case False
        with pos have "py_lt 0 a" by (simp add: py_lt_zero_iff)
        with valid cat show ?thesis by (simp add: add_expense_insert)
      qed
    qed
  qed
qed

lemma step_store_ok: "store_ok st \<Longrightarrow> store_ok (snd (step c st))"
proof (cases c)
  case (AddExpense d a cat sc n)
  assume ok: "store_ok st"
  from add_expense_store [of d a cat sc n st] ok show ?thesis
    unfolding AddExpense by (auto simp: store_ok_def row_ok_def)
qed simp_all

lemma list_expenses_start_error:
  "\<not> fst (validate_date s) \<Longrightarrow>
   list_expenses s e st = Error (''Invalid start_date: '' @ date_format_msg)"
  using validate_date_cases [of s] by (auto simp: list_expenses_def)

lemma list_expenses_end_error:
  "fst (validate_date s) \<Longrightarrow> \<not> fst (validate_date e) \<Longrightarrow>
   list_expenses s e st = Error (''Invalid end_date: '' @ date_format_msg)"
  using validate_date_cases [of s] validate_date_cases [of e] by (auto simp: list_expenses_def)

lemma list_expenses_ok:
  "fst (validate_date s) \<Longrightarrow> fst (validate_date e) \<Longrightarrow>
   list_expenses s e st = Listed (length (query_range s e st)) (query_range s e st)"
  using validate_date_cases [of s] validate_date_cases [of e]
  by (auto simp: list_expenses_def Let_def)

lemma summarize_start_error:
  "\<not> fst (validate_date s) \<Longrightarrow>
   summarize s e c st = Error (''Invalid start_date: '' @ date_format_msg)"
  using validate_date_cases [of s] by (auto simp: summarize_def)

lemma summarize_end_error:
  "fst (validate_date s) \<Longrightarrow> \<not> fst (validate_date e) \<Longrightarrow>
   summarize s e c st = Error (''Invalid end_date: '' @ date_format_msg)"
  using validate_date_cases [of s] validate_date_cases [of e] by (auto simp: summarize_def)

lemma summarize_ok:
  "fst (validate_date s) \<Longrightarrow> fst (validate_date e) \<Longrightarrow>
   summarize s e c st =
     (case py_sum (map total_amount (aggregate_range s e c st)) of
        Inl m \<Rightarrow> Error (''Database error: '' @ m)
      | Inr t \<Rightarrow> Summary (s @ '' to '' @ e) t (aggregate_range s e c st))"
  using validate_date_cases [of s] validate_date_cases [of e]
  by (auto simp: summarize_def Let_def)

text \<open>The error prefixes differ, so a message tells which check failed.\<close>

lemma start_not_end: "''Invalid start_date: '' @ x \<noteq> ''Invalid end_date: '' @ y"
  by simp

lemma db_not_end: "''Database error: '' @ x \<noteq> ''Invalid end_date: '' @ y"
  by simp

lemma list_expenses_end_prefix:
  assumes "list_expenses s e st = Error (''Invalid end_date: '' @ m)"
  shows "fst (validate_date s) \<and> \<not> fst (validate_date e)"
proof (cases "fst (validate_date s)")
  case False
  from list_expenses_start_error [OF False, of e st] assms start_not_end [of date_format_msg m]
  show ?thesis by simp
next
  case valid: True
  show ?thesis
  proof (cases "fst (validate_date e)")
    case True
    from list_expenses_ok [OF valid True, of st] assms show ?thesis by simp
  next
    case False
    with valid show ?thesis by simp
  qed
qed

lemma summarize_end_prefix:
  assumes "summarize s e c st = Error (''Invalid end_date: '' @ m)"
  shows "fst (validate_date s) \<and> \<not> fst (validate_date e)"
proof (cases "fst (validate_date s)")
  case False
  from summarize_start_error [OF False, of e c st] assms start_not_end [of date_format_msg m]
  show ?thesis by simp
next
  case valid: True
  show ?thesis
  proof (cases "fst (validate_date e)")
    case True
    show ?thesis
    proof (cases "py_sum (map total_amount (aggregate_range s e c st))")
      case (Inl x)
      with summarize_ok [OF valid True, of c st] assms db_not_end [of x m]
      show ?thesis by simp
    next
      case (Inr t)
      with summarize_ok [OF valid True, of c st] assms show ?thesis by simp
    qed
  next
    case False
    with valid show ?thesis by simp
  qed
qed

section \<open>Sorting and sums\<close>

lemma mset_insert_by: "mset (insert_by f x xs) = add_mset x (mset xs)"
  by (induction xs) auto

lemma mset_order_by: "mset (order_by f xs) = mset xs"
  by (induction xs) (auto simp: mset_insert_by)

lemma set_insert_by: "set (insert_by f x xs) = insert x (set xs)"
  by (induction xs) auto

lemma set_order_by: "set (order_by f xs) = set xs"
  by (induction xs) (auto simp: set_insert_by)

lemma sorted_insert_by:
  assumes trans: "\<And>a b c. f a b \<Longrightarrow> f b c \<Longrightarrow> f a c"
    and total: "\<And>b. b \<in> set xs \<Longrightarrow> f x b \<or> f b x"
    and sorted: "sorted_wrt f xs"
  shows "sorted_wrt f (insert_by f x xs)"
  using total sorted
proof (induction xs)
  case Nil
  show ?case by simp
next
  case (Cons y ys)
  show ?case
  proof (cases "f x y")
    case True
    have "f x b" if "b \<in> set ys" for b
      using that Cons.prems(2) True trans by auto
    with True Cons.prems(2) show ?thesis by auto
  next
    case False
    with Cons.prems(1) [of y] have yx: "f y x" by simp
    have "sorted_wrt f (insert_by f x ys)"
      using Cons.IH Cons.prems by auto
    with False yx Cons.prems(2) show ?thesis
      by (auto simp: set_insert_by)
  qed
qed

lemma sorted_order_by:
  assumes trans: "\<And>a b c. f a b \<Longrightarrow> f b c \<Longrightarrow> f a c"
    and total: "\<And>a b. a \<in> set xs \<Longrightarrow> b \<in> set xs \<Longrightarrow> f a b \<or> f b a"
  shows "sorted_wrt f (order_by f xs)"
  using total
proof (induction xs)
  case Nil
  show ?case by simp
next
  case (Cons x xs)
  have "sorted_wrt f (order_by f xs)"
    using Cons.IH Cons.prems by auto
  moreover have "f x b \<or> f b x" if "b \<in> set (order_by f xs)" for b
    using that Cons.prems [of x b] by (simp add: set_order_by)
  ultimately show ?case
    using sorted_insert_by [of f "order_by f xs" x] trans by auto
qed

lemma mset_query_range:
  "mset (query_range s e st) =
     filter_mset (\<lambda>r. s \<le> exp_date r \<and> exp_date r \<le> e) (mset (expenses st))"
  by (simp add: query_range_def mset_order_by between_def)

lemma sorted_query_range:
  "sorted_wrt (\<lambda>a b. exp_date b \<le> exp_date a) (query_range s e st)"
  unfolding query_range_def by (rule sorted_order_by) auto

lemma query_range_inverted: "e < s \<Longrightarrow> query_range s e st = []"
proof -
  assume "e < s"
  then have "\<not> between x s e" for x
    by (auto simp: between_def)
  then show ?thesis by (simp add: query_range_def)
qed



lemma sum_list_order_by:
  fixes g :: "'a \<Rightarrow> 'b::comm_monoid_add"
  shows "sum_list (map g (order_by f xs)) = sum_list (map g xs)"
proof -
  have "mset (map g (order_by f xs)) = mset (map g xs)"
    by (simp add: mset_order_by)
  then have "sum_mset (mset (map g (order_by f xs))) = sum_mset (mset (map g xs))"
    by (rule arg_cong)
  then show ?thesis by (simp only: sum_mset_sum_list)
qed

lemma ledger3_rows:
  "ledger3 = \<lparr>expenses =
     [\<lparr>exp_id = 1, exp_date = ''2024-01-10'', exp_amount = Fin 10, exp_category = ''Food'',
       exp_subcategory = None, exp_note = None\<rparr>,
      \<lparr>exp_id = 2, exp_date = ''2024-01-20'', exp_amount = Fin 20, exp_category = ''Travel'',
       exp_subcategory = None, exp_note = None\<rparr>,
      \<lparr>exp_id = 3, exp_date = ''2024-01-05'', exp_amount = Fin 5, exp_category = ''Food'',
       exp_subcategory = None, exp_note = None\<rparr>],
     seqno = 3\<rparr>"
proof -
  have v: "fst (validate_date ''2024-01-10'')" "fst (validate_date ''2024-01-20'')"
    "fst (validate_date ''2024-01-05'')"
    by (simp_all add: date_eval)
  have c: "''Food'' \<in> set valid_categories" "''Travel'' \<in> set valid_categories"
    by (simp_all add: valid_categories_def)
  have p: "py_lt 0 (Fin 10)" "py_lt 0 (Fin 20)" "py_lt 0 (Fin 5)"
    by (simp_all add: zero_pyfloat_def)
  show ?thesis
    unfolding ledger3_def
    by (simp add: add_expense_insert v c p next_rowid_def init_db_def)
qed


lemma selected_eq:
  "selected c r = (case c of None \<Rightarrow> True | Some x \<Rightarrow> x = [] \<or> exp_category r = x)"
  by (auto simp: selected_def has_filter_def split: option.splits)

lemma matching_eq:
  "matching s e c st =
     filter (\<lambda>r. s \<le> exp_date r \<and> exp_date r \<le> e
               \<and> (case c of None \<Rightarrow> True | Some x \<Rightarrow> x = [] \<or> exp_category r = x))
       (expenses st)"
  by (simp add: matching_def between_def selected_eq)





lemma py_lt_zero_not_nan: "py_lt 0 a \<Longrightarrow> a \<noteq> NaN"
  by (cases a) (simp_all add: zero_pyfloat_def)

section \<open>Rounding\<close>












lemma round_half_even_nonneg: "0 \<le> x \<Longrightarrow> 0 \<le> round_half_even x"
  by (auto simp: round_half_even_def Let_def intro: add_nonneg_nonneg)




















section \<open>Number formatting\<close>

lemma of_char_digit_char: "k < 10 \<Longrightarrow> of_char (digit_char k) = 48 + k"
  by (simp add: digit_char_def)

lemma is_digit_digit_char: "k < 10 \<Longrightarrow> is_digit (digit_char k)"
  by (simp add: is_digit_def less_eq_char_def of_char_digit_char)

lemma digit_val_digit_char: "k < 10 \<Longrightarrow> digit_val (digit_char k) = k"
  by (simp add: digit_val_def of_char_digit_char)

lemma dec_digits: "list_all is_digit (dec n) \<and> dec n \<noteq> []"
proof (induction n rule: dec.induct)
  case (1 n)
  show ?case
  proof (cases "n < 10")
    case True
    then show ?thesis by (subst (1 2) dec.simps) (simp add: is_digit_digit_char)
  next
    case False
    with 1 show ?thesis by (subst (1 2) dec.simps) (simp add: is_digit_digit_char)
  qed
qed

lemma dec_value: "foldl (\<lambda>a ch. 10 * a + digit_val ch) 0 (dec n) = n"
proof (induction n rule: dec.induct)
  case (1 n)
  show ?case
  proof (cases "n < 10")
    case True
    then show ?thesis by (subst dec.simps) (simp add: digit_val_digit_char)
  next
    case False
    with 1 show ?thesis by (subst dec.simps) (simp add: digit_val_digit_char)
  qed
qed

lemma three_digits: "100 * (n div 100) + 10 * (n div 10 mod 10) + n mod 10 = (n::nat)"
proof -
  have 1: "10 * (n div 10) + n mod 10 = n" by (rule mult_div_mod_eq)
  have 2: "10 * (n div 10 div 10) + n div 10 mod 10 = n div 10" by (rule mult_div_mod_eq)
  have 3: "n div 100 = n div 10 div 10" using div_mult2_eq [of n 10 10] by simp
  have "100 * (n div 100) + 10 * (n div 10 mod 10) + n mod 10
      = 10 * (10 * (n div 10 div 10) + n div 10 mod 10) + n mod 10"
    unfolding 3 by (simp only: distrib_left mult.assoc [symmetric])
  also have "\<dots> = 10 * (n div 10) + n mod 10" by (simp only: 2)
  also have "\<dots> = n" by (rule 1)
  finally show ?thesis .
qed

lemma round_half_even_near: "\<bar>x - of_int (round_half_even x)\<bar> \<le> 1 / 2"
proof -
  have "of_int \<lfloor>x\<rfloor> \<le> x" "x < of_int \<lfloor>x\<rfloor> + 1"
    by linarith+
  then show ?thesis
    by (auto simp: round_half_even_def Let_def)
qed

lemma format_2f_finite:
  assumes "0 \<le> r"
  defines "q \<equiv> nat (round_half_even (r * 100))"
  shows "format_2f (Fin r) =
           dec (q div 100) @ ''.'' @ [digit_char (q div 10 mod 10), digit_char (q mod 10)]"
    and "\<bar>r * 100 - of_nat q\<bar> \<le> 1 / 2"
proof -
  from assms(1) have abs: "\<bar>r\<bar> = r" and nneg: "\<not> r < 0" by simp_all
  show "format_2f (Fin r) =
           dec (q div 100) @ ''.'' @ [digit_char (q div 10 mod 10), digit_char (q mod 10)]"
    by (simp add: format_2f_def Let_def abs nneg q_def)
  from assms(1) have "0 \<le> round_half_even (r * 100)"
    by (intro round_half_even_nonneg) simp
  then have "(of_nat q :: rat) = of_int (round_half_even (r * 100))"
    by (simp add: q_def)
  with round_half_even_near [of "r * 100"] show "\<bar>r * 100 - of_nat q\<bar> \<le> 1 / 2"
    by simp
qed

lemma next_rowid_fresh: "next_rowid st \<notin> exp_id ` set (expenses st)"
proof -
  have "x \<le> foldr max xs (0::nat)" if "x \<in> set xs" for x xs
    using that by (induction xs) auto
  then have lt: "exp_id r < next_rowid st" if "r \<in> set (expenses st)" for r
    using that by (force simp: next_rowid_def less_Suc_eq_le max.coboundedI2)
  show ?thesis
  proof
    assume "next_rowid st \<in> exp_id ` set (expenses st)"
    then obtain r where "r \<in> set (expenses st)" and "next_rowid st = exp_id r" by auto
    with lt [of r] show False by simp
  qed
qed

lemma jan_valid: "fst (validate_date ''2024-01-01'')" "fst (validate_date ''2024-01-31'')"
  "fst (validate_date ''2024-01-15'')" "fst (validate_date ''2024-01-10'')"
  by (simp_all add: date_eval)

lemma digit_char_eq:
  assumes "of_char c = 48 + k" and "k < 10"
  shows "digit_char k = c"
proof -
  from assms have "of_char (digit_char k) = (of_char c :: nat)"
    by (simp add: of_char_digit_char)
  then show ?thesis by (simp only: of_char_eq_iff)
qed

lemma digit_char_values:
  "digit_char 0 = CHR ''0''" "digit_char 1 = CHR ''1''" "digit_char 2 = CHR ''2''"
  "digit_char 3 = CHR ''3''" "digit_char 4 = CHR ''4''" "digit_char 5 = CHR ''5''"
  "digit_char 6 = CHR ''6''" "digit_char 7 = CHR ''7''" "digit_char 8 = CHR ''8''"
  "digit_char 9 = CHR ''9''"
  by (rule digit_char_eq; simp)+

lemma digit_char_one: "digit_char (Suc 0) = CHR ''1''"
  by (rule digit_char_eq) simp_all

lemma format_example: "format_2f (Fin (25 / 2)) = ''12.50''"
  by (simp add: format_2f_def round_half_even_def Let_def dec.simps digit_char_values digit_char_one)

section \<open>The aggregate query\<close>











section \<open>Sums that do not round\<close>








section \<open>Sums at the overflow threshold\<close>

lemma round_half_even_quarter: "round_half_even (of_int n + 1 / 4) = n"
proof -
  have "\<lfloor>(of_int n :: rat) + 1 / 4\<rfloor> = n" by (rule floor_unique) simp_all
  then show ?thesis by (simp add: round_half_even_def Let_def)
qed

lemma round_half_even_half: "odd n \<Longrightarrow> round_half_even (of_int n + 1 / 2) = n + 1"
proof -
  have "\<lfloor>(of_int n :: rat) + 1 / 2\<rfloor> = n" by (rule floor_unique) simp_all
  then show "odd n \<Longrightarrow> round_half_even (of_int n + 1 / 2) = n + 1"
    by (simp add: round_half_even_def Let_def)
qed

lemma round_examples:
  "round_half_even (2 ^ 53 - 1 + 1 / 4) = 2 ^ 53 - 1"
  "round_half_even (2 ^ 53 - 1 + 1 / 2) = 2 ^ 53"
  using round_half_even_quarter [of "2 ^ 53 - 1"] round_half_even_half [of "2 ^ 53 - 1"]
  by simp_all














section \<open>The example tables\<close>












section \<open>The claims\<close>

text \<open>
  C3. Every row of every reachable table has an amount greater than zero and one of the
  nine categories: the table starts empty, \<^verbatim>\<open>add_expense\<close> is the only tool that
  writes, and it validates (and the column constraint refuses a NaN) before the row is
  stored; \<^verbatim>\<open>list_expenses\<close> and \<^verbatim>\<open>summarize\<close> leave the table as it is.
\<close>

theorem store_invariant: "reachable st \<Longrightarrow> store_ok st"
proof (induction rule: reachable.induct)
  case reachable_init
  show ?case by (simp add: store_ok_def init_db_def)
next
  case (reachable_step st c)
  then show ?case by (simp add: step_store_ok)
qed

theorem store_invariant_witness:
  "reachable (snd (step (AddExpense ''2024-01-15'' (Fin (25 / 2)) ''Food'' None None) init_db))
   \<and> store_ok (snd (step (AddExpense ''2024-01-15'' (Fin (25 / 2)) ''Food'' None None) init_db))
   \<and> expenses (snd (step (AddExpense ''2024-01-15'' (Fin (25 / 2)) ''Food'' None None) init_db)) =
       [\<lparr>exp_id = 1, exp_date = ''2024-01-15'', exp_amount = Fin (25 / 2), exp_category = ''Food'',
         exp_subcategory = None, exp_note = None\<rparr>]"
proof -
  have r: "reachable (snd (step (AddExpense ''2024-01-15'' (Fin (25 / 2)) ''Food'' None None) init_db))"
    by (rule reachable_step [OF reachable_init])
  have v: "fst (validate_date ''2024-01-15'')" by (simp add: date_eval)
  have e: "expenses (snd (step (AddExpense ''2024-01-15'' (Fin (25 / 2)) ''Food'' None None) init_db)) =
       [\<lparr>exp_id = 1, exp_date = ''2024-01-15'', exp_amount = Fin (25 / 2), exp_category = ''Food'',
         exp_subcategory = None, exp_note = None\<rparr>]"
    using v by (simp add: add_expense_insert zero_pyfloat_def valid_categories_def next_rowid_def init_db_def)
  from r store_invariant [OF r] e show ?thesis by simp
qed

text \<open>
  C6. \<^verbatim>\<open>add_expense\<close> checks the date, then the amount, then the category. A bad date
  gives the date message whatever the amount and the category are; with a good date, an
  amount \<^verbatim>\<open><= 0\<close> gives the amount message whatever the category is; with both good, a
  category outside the list gives the category message. On each of these paths the table
  is returned unchanged.
\<close>

theorem add_expense_validation_order:
  "(\<not> fst (validate_date d) \<longrightarrow>
      add_expense d a c sc n st = (Error date_format_msg, st)) \<and>
   (fst (validate_date d) \<and> py_le a 0 \<longrightarrow>
      add_expense d a c sc n st = (Error amount_msg, st)) \<and>
   (fst (validate_date d) \<and> \<not> py_le a 0 \<and> c \<notin> set valid_categories \<longrightarrow>
      add_expense d a c sc n st = (Error category_msg, st))"
  by (simp add: add_expense_date_error add_expense_amount_error add_expense_category_error)

theorem add_expense_validation_order_witness:
  "add_expense ''2024-13-01'' (Fin (- 5)) ''Groceries'' None None init_db =
     (Error ''Date must be in YYYY-MM-DD format (e.g., 2024-01-15)'', init_db) \<and>
   add_expense ''2024-01-15'' (Fin (- 5)) ''Groceries'' None None init_db =
     (Error ''Amount must be a positive number'', init_db) \<and>
   add_expense ''2024-01-15'' (Fin 10) ''Groceries'' None None init_db =
     (Error ''Invalid category. Must be one of: Food, Travel, Transport, Shopping, Bills, Healthcare, Education, Business, Other'', init_db)"
proof -
  have bad: "\<not> fst (validate_date ''2024-13-01'')" by (simp add: date_eval)
  have good: "fst (validate_date ''2024-01-15'')" by (simp add: date_eval)
  have neg: "py_le (Fin (- 5)) 0" by (simp add: zero_pyfloat_def)
  have pos: "\<not> py_le (Fin 10) 0" by (simp add: zero_pyfloat_def)
  have cat: "''Groceries'' \<notin> set valid_categories" by (simp add: valid_categories_def)
  have msg: "category_msg = ''Invalid category. Must be one of: Food, Travel, Transport, Shopping, Bills, Healthcare, Education, Business, Other''"
    by (simp add: category_msg_def valid_categories_def)
  from bad good neg pos cat
    add_expense_validation_order [of "''2024-13-01''" "Fin (- 5)" "''Groceries''" None None init_db]
    add_expense_validation_order [of "''2024-01-15''" "Fin (- 5)" "''Groceries''" None None init_db]
    add_expense_validation_order [of "''2024-01-15''" "Fin 10" "''Groceries''" None None init_db]
  show ?thesis
    unfolding msg [symmetric] by (simp add: date_format_msg_def amount_msg_def)
qed

text \<open>
  C9. In \<^verbatim>\<open>list_expenses\<close> and \<^verbatim>\<open>summarize\<close> the start date is checked first: when it
  is invalid the result is the error \<^verbatim>\<open>Invalid start_date: \<close> followed by the date
  message, whatever the end date is; when it is valid and the end date is not, the result
  is the error \<^verbatim>\<open>Invalid end_date: \<close> followed by the date message; and an error with
  the prefix \<^verbatim>\<open>Invalid end_date: \<close> is returned only when the start date is valid.
\<close>

theorem start_date_checked_first:
  "(\<not> fst (validate_date s) \<longrightarrow>
      list_expenses s e st = Error (''Invalid start_date: '' @ date_format_msg) \<and>
      summarize s e c st = Error (''Invalid start_date: '' @ date_format_msg)) \<and>
   (fst (validate_date s) \<and> \<not> fst (validate_date e) \<longrightarrow>
      list_expenses s e st = Error (''Invalid end_date: '' @ date_format_msg) \<and>
      summarize s e c st = Error (''Invalid end_date: '' @ date_format_msg)) \<and>
   ((\<exists>m. list_expenses s e st = Error (''Invalid end_date: '' @ m)
        \<or> summarize s e c st = Error (''Invalid end_date: '' @ m)) \<longrightarrow>
      fst (validate_date s) \<and> \<not> fst (validate_date e))"
proof -
  have a: "\<not> fst (validate_date s) \<longrightarrow>
      list_expenses s e st = Error (''Invalid start_date: '' @ date_format_msg) \<and>
      summarize s e c st = Error (''Invalid start_date: '' @ date_format_msg)"
    using list_expenses_start_error [of s e st] summarize_start_error [of s e c st] by blast
  have b: "fst (validate_date s) \<and> \<not> fst (validate_date e) \<longrightarrow>
      list_expenses s e st = Error (''Invalid end_date: '' @ date_format_msg) \<and>
      summarize s e c st = Error (''Invalid end_date: '' @ date_format_msg)"
    using list_expenses_end_error [of s e st] summarize_end_error [of s e c st] by blast
  have c: "(\<exists>m. list_expenses s e st = Error (''Invalid end_date: '' @ m)
        \<or> summarize s e c st = Error (''Invalid end_date: '' @ m)) \<longrightarrow>
      fst (validate_date s) \<and> \<not> fst (validate_date e)"
    using list_expenses_end_prefix [of s e st] summarize_end_prefix [of s e c st] by blast
  from a b c show ?thesis by blast
qed

theorem start_date_checked_first_witness:
  "list_expenses ''2024-13-01'' ''nope'' init_db =
     Error ''Invalid start_date: Date must be in YYYY-MM-DD format (e.g., 2024-01-15)'' \<and>
   summarize ''2024-13-01'' ''nope'' None init_db =
     Error ''Invalid start_date: Date must be in YYYY-MM-DD format (e.g., 2024-01-15)'' \<and>
   list_expenses ''2024-01-01'' ''nope'' init_db =
     Error ''Invalid end_date: Date must be in YYYY-MM-DD format (e.g., 2024-01-15)'' \<and>
   summarize ''2024-01-01'' ''nope'' None init_db =
     Error ''Invalid end_date: Date must be in YYYY-MM-DD format (e.g., 2024-01-15)'' \<and>
   fst (validate_date ''2024-01-01'') \<and> \<not> fst (validate_date ''nope'')"
proof -
  have bad: "\<not> fst (validate_date ''2024-13-01'')" by (simp add: date_eval)
  have good: "fst (validate_date ''2024-01-01'')" by (simp add: date_eval)
  have nope: "\<not> fst (validate_date ''nope'')" by (simp add: date_eval)
  have m: "''Invalid start_date: '' @ date_format_msg = ''Invalid start_date: Date must be in YYYY-MM-DD format (e.g., 2024-01-15)''"
     "''Invalid end_date: '' @ date_format_msg = ''Invalid end_date: Date must be in YYYY-MM-DD format (e.g., 2024-01-15)''"
    by (simp_all add: date_format_msg_def)
  from bad good nope
    start_date_checked_first [of "''2024-13-01''" "''nope''" init_db None]
    start_date_checked_first [of "''2024-01-01''" "''nope''" init_db None]
  show ?thesis unfolding m by blast
qed

text \<open>
  C1. For valid dates, \<^verbatim>\<open>list_expenses\<close> succeeds; the rows it returns are, as a
  multiset, exactly the stored rows whose date lies between the two dates (inclusive, in
  the lexicographic order of strings); they are ordered by date, descending; the count is
  their number; and when the end date is below the start date the list is empty.
\<close>

theorem list_expenses_range:
  assumes "fst (validate_date s)" and "fst (validate_date e)"
  shows "\<exists>rows. list_expenses s e st = Listed (length rows) rows
           \<and> status (list_expenses s e st) = ''success''
           \<and> mset rows = filter_mset (\<lambda>r. s \<le> exp_date r \<and> exp_date r \<le> e) (mset (expenses st))
           \<and> sorted_wrt (\<lambda>a b. exp_date b \<le> exp_date a) rows
           \<and> (e < s \<longrightarrow> rows = [])"
proof (intro exI conjI)
  show "list_expenses s e st = Listed (length (query_range s e st)) (query_range s e st)"
    using assms by (rule list_expenses_ok)
  then show "status (list_expenses s e st) = ''success''" by simp
  show "mset (query_range s e st) =
          filter_mset (\<lambda>r. s \<le> exp_date r \<and> exp_date r \<le> e) (mset (expenses st))"
    by (rule mset_query_range)
  show "sorted_wrt (\<lambda>a b. exp_date b \<le> exp_date a) (query_range s e st)"
    by (rule sorted_query_range)
  show "e < s \<longrightarrow> query_range s e st = []"
    by (simp add: query_range_inverted)
qed

theorem list_expenses_range_witness:
  "fst (validate_date ''2024-01-01'') \<and> fst (validate_date ''2024-01-31'')
   \<and> list_expenses ''2024-01-01'' ''2024-01-31'' ledger3 =
       Listed 3
         [\<lparr>exp_id = 2, exp_date = ''2024-01-20'', exp_amount = Fin 20, exp_category = ''Travel'',
           exp_subcategory = None, exp_note = None\<rparr>,
          \<lparr>exp_id = 1, exp_date = ''2024-01-10'', exp_amount = Fin 10, exp_category = ''Food'',
           exp_subcategory = None, exp_note = None\<rparr>,
          \<lparr>exp_id = 3, exp_date = ''2024-01-05'', exp_amount = Fin 5, exp_category = ''Food'',
           exp_subcategory = None, exp_note = None\<rparr>]
   \<and> list_expenses ''2024-01-31'' ''2024-01-01'' ledger3 = Listed 0 []"
proof -
  have lt: "''2024-01-01'' < ''2024-01-31''" by simp
  from list_expenses_range [OF jan_valid(2) jan_valid(1), of ledger3] lt
  have inverted: "list_expenses ''2024-01-31'' ''2024-01-01'' ledger3 = Listed 0 []"
    by auto
  from list_expenses_range [OF jan_valid(1) jan_valid(2), of ledger3]
  obtain rows where rows: "list_expenses ''2024-01-01'' ''2024-01-31'' ledger3 = Listed (length rows) rows"
    by blast
  have "query_range ''2024-01-01'' ''2024-01-31'' ledger3 =
         [\<lparr>exp_id = 2, exp_date = ''2024-01-20'', exp_amount = Fin 20, exp_category = ''Travel'',
           exp_subcategory = None, exp_note = None\<rparr>,
          \<lparr>exp_id = 1, exp_date = ''2024-01-10'', exp_amount = Fin 10, exp_category = ''Food'',
           exp_subcategory = None, exp_note = None\<rparr>,
          \<lparr>exp_id = 3, exp_date = ''2024-01-05'', exp_amount = Fin 5, exp_category = ''Food'',
           exp_subcategory = None, exp_note = None\<rparr>]"
    by (simp add: query_range_def ledger3_rows between_def)
  with rows jan_valid inverted show ?thesis
    by (simp add: list_expenses_ok)
qed






text \<open>
  C10. For valid dates, when no stored row lies in the range and passes the category
  filter, \<^verbatim>\<open>summarize\<close> succeeds with an empty summary and a total of exactly 0.
\<close>

theorem summarize_no_match:
  assumes "fst (validate_date s)" and "fst (validate_date e)"
    and "\<forall>r \<in> set (expenses st).
           \<not> (s \<le> exp_date r \<and> exp_date r \<le> e
              \<and> (case c of None \<Rightarrow> True | Some x \<Rightarrow> x = [] \<or> exp_category r = x))"
  shows "summarize s e c st = Summary (s @ '' to '' @ e) (Fin 0) []
       \<and> status (summarize s e c st) = ''success''"
proof -
  from assms(3) have "matching s e c st = []"
    by (simp add: matching_eq filter_empty_conv)
  then have "aggregate_range s e c st = []"
    by (simp add: aggregate_range_def)
  with assms(1,2) show ?thesis
    by (simp add: summarize_ok py_sum_def zero_pyfloat_def)
qed

theorem summarize_no_match_witness:
  "fst (validate_date ''2024-01-01'') \<and> fst (validate_date ''2024-01-31'')
   \<and> filter (\<lambda>r. ''2024-01-01'' \<le> exp_date r \<and> exp_date r \<le> ''2024-01-31''
                  \<and> exp_category r = ''Groceries'') (expenses ledger3) = []
   \<and> summarize ''2024-01-01'' ''2024-01-31'' (Some ''Groceries'') ledger3 =
       Summary ''2024-01-01 to 2024-01-31'' (Fin 0) []"
proof -
  have empty: "filter (\<lambda>r. ''2024-01-01'' \<le> exp_date r \<and> exp_date r \<le> ''2024-01-31''
                  \<and> exp_category r = ''Groceries'') (expenses ledger3) = []"
    by (simp add: ledger3_rows)
  then have none: "\<forall>r \<in> set (expenses ledger3).
          \<not> (''2024-01-01'' \<le> exp_date r \<and> exp_date r \<le> ''2024-01-31''
             \<and> (case Some ''Groceries'' of None \<Rightarrow> True
                 | Some x \<Rightarrow> x = [] \<or> exp_category r = x))"
    by (simp add: filter_empty_conv)
  from summarize_no_match [OF jan_valid(1) jan_valid(2) none] jan_valid empty
  show ?thesis by simp
qed

text \<open>
  C8, amended. For a valid date, a finite amount greater than zero and a valid category,
  \<^verbatim>\<open>add_expense\<close> succeeds: the id is new, the row is appended, and the message is
  \<^verbatim>\<open>Added expense: \<close>, the category, \<^verbatim>\<open> - $\<close>, the amount and \<^verbatim>\<open> on \<close> with the
  date, where the amount is printed as a non-empty run of digits, a point and exactly two
  digits, and the number printed is within half a hundredth of the amount.
\<close>

theorem add_expense_success_finite:
  assumes "fst (validate_date d)" and "0 < r" and "c \<in> set valid_categories"
  shows "\<exists>ip d1 d2 st'.
      add_expense d (Fin r) c sc n st =
        (Added (next_rowid st)
           (''Added expense: '' @ c @ '' - $'' @ ip @ ''.'' @ [d1, d2] @ '' on '' @ d), st')
    \<and> ip \<noteq> [] \<and> list_all is_digit ip \<and> is_digit d1 \<and> is_digit d2
    \<and> \<bar>r * 100 - of_nat (100 * foldl (\<lambda>a ch. 10 * a + digit_val ch) 0 ip
                           + 10 * digit_val d1 + digit_val d2)\<bar> \<le> 1 / 2
    \<and> next_rowid st \<notin> exp_id ` set (expenses st)
    \<and> expenses st' = expenses st @
         [\<lparr>exp_id = next_rowid st, exp_date = d, exp_amount = Fin r, exp_category = c,
           exp_subcategory = sc, exp_note = n\<rparr>]"
proof (intro exI conjI)
  define q where "q = nat (round_half_even (r * 100))"
  let ?ip = "dec (q div 100)"
  let ?d1 = "digit_char (q div 10 mod 10)"
  let ?d2 = "digit_char (q mod 10)"
  let ?st' = "\<lparr>expenses = expenses st @
         [\<lparr>exp_id = next_rowid st, exp_date = d, exp_amount = Fin r, exp_category = c,
           exp_subcategory = sc, exp_note = n\<rparr>], seqno = next_rowid st\<rparr>"
  from assms(2) have nneg: "0 \<le> r" by simp
  have fmt: "format_2f (Fin r) = ?ip @ ''.'' @ [?d1, ?d2]"
    unfolding q_def by (rule format_2f_finite(1) [OF nneg])
  have near: "\<bar>r * 100 - of_nat q\<bar> \<le> 1 / 2"
    unfolding q_def by (rule format_2f_finite(2) [OF nneg])
  have d1: "digit_val ?d1 = q div 10 mod 10"
    by (rule digit_val_digit_char) simp
  have d2: "digit_val ?d2 = q mod 10"
    by (rule digit_val_digit_char) simp
  have "100 * (q div 100) + 10 * (q div 10 mod 10) + q mod 10 = q"
    by (rule three_digits)
  then have q: "100 * foldl (\<lambda>a ch. 10 * a + digit_val ch) 0 ?ip
             + 10 * digit_val ?d1 + digit_val ?d2 = q"
    by (simp only: dec_value d1 d2)
  from assms(2) have pos: "py_lt 0 (Fin r)" by (simp add: zero_pyfloat_def)
  have "add_expense d (Fin r) c sc n st =
        (Added (next_rowid st)
           (''Added expense: '' @ c @ '' - $'' @ format_2f (Fin r) @ '' on '' @ d), ?st')"
    by (rule add_expense_insert [OF assms(1) pos assms(3)])
  then show "add_expense d (Fin r) c sc n st =
        (Added (next_rowid st)
           (''Added expense: '' @ c @ '' - $'' @ ?ip @ ''.'' @ [?d1, ?d2] @ '' on '' @ d), ?st')"
    by (simp only: fmt append_assoc)
  show "?ip \<noteq> []" and "list_all is_digit ?ip"
    using dec_digits [of "q div 100"] by simp_all
  show "is_digit ?d1" and "is_digit ?d2"
    by (simp_all add: is_digit_digit_char)
  show "\<bar>r * 100 - of_nat (100 * foldl (\<lambda>a ch. 10 * a + digit_val ch) 0 ?ip
                           + 10 * digit_val ?d1 + digit_val ?d2)\<bar> \<le> 1 / 2"
    by (simp only: q near)
  show "next_rowid st \<notin> exp_id ` set (expenses st)"
    by (rule next_rowid_fresh)
  show "expenses ?st' = expenses st @
         [\<lparr>exp_id = next_rowid st, exp_date = d, exp_amount = Fin r, exp_category = c,
           exp_subcategory = sc, exp_note = n\<rparr>]"
    by simp
qed

theorem add_expense_success_finite_witness:
  "fst (validate_date ''2024-01-15'') \<and> (0::rat) < 25 / 2 \<and> ''Food'' \<in> set valid_categories
   \<and> add_expense ''2024-01-15'' (Fin (25 / 2)) ''Food'' None None init_db =
       (Added 1 ''Added expense: Food - $12.50 on 2024-01-15'',
        \<lparr>expenses =
           [\<lparr>exp_id = 1, exp_date = ''2024-01-15'', exp_amount = Fin (25 / 2),
             exp_category = ''Food'', exp_subcategory = None, exp_note = None\<rparr>],
         seqno = 1\<rparr>)"
proof -
  have pos: "(0::rat) < 25 / 2" by simp
  have cat: "''Food'' \<in> set valid_categories" by (simp add: valid_categories_def)
  from add_expense_success_finite [OF jan_valid(3) pos cat, of None None init_db]
  obtain ip d1 d2 st' where
    "add_expense ''2024-01-15'' (Fin (25 / 2)) ''Food'' None None init_db =
       (Added (next_rowid init_db)
          (''Added expense: '' @ ''Food'' @ '' - $'' @ ip @ ''.'' @ [d1, d2] @ '' on '' @ ''2024-01-15''),
        st')"
    by blast
  moreover have "py_lt 0 (Fin (25 / 2))" by (simp add: zero_pyfloat_def)
  ultimately show ?thesis
    using pos cat jan_valid(3)
    by (simp add: add_expense_insert format_example next_rowid_def init_db_def)
qed

text \<open>
  C8 as stated fails for an infinite amount: it passes the three validations (it is not
  \<^verbatim>\<open><= 0\<close>), the row is stored, and the message prints the amount as \<^verbatim>\<open>inf\<close>,
  without decimal places.
\<close>

theorem add_expense_inf_counterexample:
  "fst (validate_date ''2024-01-15'') \<and> \<not> py_le PInf 0 \<and> ''Food'' \<in> set valid_categories
   \<and> add_expense ''2024-01-15'' PInf ''Food'' None None init_db =
       (Added 1 ''Added expense: Food - $inf on 2024-01-15'',
        \<lparr>expenses =
           [\<lparr>exp_id = 1, exp_date = ''2024-01-15'', exp_amount = PInf, exp_category = ''Food'',
             exp_subcategory = None, exp_note = None\<rparr>],
         seqno = 1\<rparr>)"
proof -
  have "py_lt 0 PInf" by (simp add: zero_pyfloat_def)
  then show ?thesis
    by (simp add: add_expense_insert jan_valid valid_categories_def zero_pyfloat_def
          format_2f_def next_rowid_def init_db_def)
qed

text \<open>
  C4. The amount check is \<^verbatim>\<open>amount <= 0\<close>, which is false for NaN: a NaN passes the
  validation, the insert is attempted, and the error returned is the one of the failed
  insert, not the amount message. Nothing is stored.
\<close>

theorem add_expense_nan_passes_validation:
  "add_expense ''2024-01-15'' NaN ''Food'' None None init_db =
     (Error ''Database error: NOT NULL constraint failed: expenses.amount'', init_db)"
proof -
  have "fst (validate_date ''2024-01-15'')" by (simp add: date_eval)
  then show ?thesis by (simp add: add_expense_nan valid_categories_def)
qed

text \<open>
  C5. The date \<^verbatim>\<open>2024-1-5\<close>, with month and day of one digit, is accepted: the parser
  behind \<^verbatim>\<open>validate_date\<close> does not require two digits for the month and the day.
\<close>

theorem validate_date_accepts_unpadded: "validate_date ''2024-1-5'' = (True, [])"
  by (simp add: date_eval)

end
